theory Spec2Isabelle
  imports Complex_Main
begin

section \<open>Data model of bach.py\<close>

text \<open>
  The four voices of class \<^verbatim>\<open>Voice\<close>. The dictionaries \<^verbatim>\<open>counter\<close>, \<^verbatim>\<open>streams\<close>,
  \<^verbatim>\<open>state\<close>, \<^verbatim>\<open>current_state\<close> and \<^verbatim>\<open>parts\<close> of the source always hold exactly these four
  keys, inserted in the order Soprano, Alto, Tenor, Bass, so each of them is a total
  function on \<open>Voice\<close> and iterating over a dictionary visits the keys in the order of
  \<open>voices\<close>.
\<close>

datatype Voice = Soprano | Alto | Tenor | Bass

definition voices :: "Voice list" where
  "voices = [Soprano, Alto, Tenor, Bass]"

fun order :: "Voice \<Rightarrow> nat" where
  "order Soprano = 1"
| "order Alto = 2"
| "order Tenor = 3"
| "order Bass = 4"

text \<open>
  The exceptions the program can raise. \<open>RuntimeError\<close> is what Python (3.7 and later)
  turns a \<open>StopIteration\<close> into when it escapes from the body of a generator;
  \<open>KeyError\<close> stands for an exception that only library code raises.
\<close>

datatype exc = StopIteration | RuntimeError | IndexError | TypeError | ValueError | AttributeError | KeyError

text \<open>
  A finite run of a generator or iterator: the items it yields, and how it ends, by
  returning (the consumer's \<^verbatim>\<open>next\<close> then raises \<open>StopIteration\<close>) or by raising.
\<close>

datatype 'a gen = Yield 'a "'a gen" | Return | Raise exc

fun iter :: "'a list \<Rightarrow> 'a gen" where
  "iter [] = Return"
| "iter (x # xs) = Yield x (iter xs)"

fun yields :: "'a gen \<Rightarrow> 'a list" where
  "yields (Yield x g) = x # yields g"
| "yields Return = []"
| "yields (Raise e) = []"

fun outcome :: "'a gen \<Rightarrow> exc option" where
  "outcome (Yield x g) = outcome g"
| "outcome Return = None"
| "outcome (Raise e) = Some e"

text \<open>
  An event of a voice stream is a pair of a name (\<^verbatim>\<open>nameWithOctave\<close> of a note, or
  \<^verbatim>\<open>'rest'\<close>) and a duration. A music21 duration is represented by its \<^verbatim>\<open>quarterLength\<close>,
  a rational number of quarter notes; the conversion \<^verbatim>\<open>Decimal(...)\<close> and the addition of
  \<^verbatim>\<open>Decimal\<close> counters are taken to be exact.
\<close>

type_synonym event = "string \<times> rat"

type_synonym joint_state = "event option \<times> event option \<times> event option \<times> event option"

section \<open>The Synchronizer: \<^verbatim>\<open>gen_states\<close>\<close>

text \<open>The local variables of \<^verbatim>\<open>gen_states\<close>.\<close>

record gen_locals =
  counter :: "Voice \<Rightarrow> rat"
  streams :: "Voice \<Rightarrow> event gen"
  state :: "Voice \<Rightarrow> event option"

text \<open>\<^verbatim>\<open>min(counter.values())\<close> and \<^verbatim>\<open>[k for k in counter if counter[k] == min_value]\<close>.\<close>

definition min_value :: "(Voice \<Rightarrow> rat) \<Rightarrow> rat" where
  "min_value c = min (c Soprano) (min (c Alto) (min (c Tenor) (c Bass)))"

definition min_voices :: "(Voice \<Rightarrow> rat) \<Rightarrow> Voice list" where
  "min_voices c = filter (\<lambda>k. c k = min_value c) voices"

text \<open>
  The \<^verbatim>\<open>for voice in min_voices\<close> loop of \<^verbatim>\<open>gen_states\<close>: \<^verbatim>\<open>next(streams[voice])\<close> either
  delivers an event, or raises \<open>StopIteration\<close> when the stream has returned, or raises
  what the stream raises. The assignments made before an exception stay made, but the
  locals are lost with the generator, so the error alone is returned.
\<close>

fun advance :: "Voice list \<Rightarrow> gen_locals \<Rightarrow> exc + gen_locals" where
  "advance [] g = Inr g"
| "advance (voice # vs) g =
     (case streams g voice of
        Yield (elem, dur) rest \<Rightarrow>
          advance vs (g\<lparr>streams := (streams g)(voice := rest),
                        state := (state g)(voice := Some (elem, dur)),
                        counter := (counter g)(voice := counter g voice + dur)\<rparr>)
      | Return \<Rightarrow> Inl StopIteration
      | Raise e \<Rightarrow> Inl e)"

text \<open>The number of events a stream still holds, and of all four streams together.\<close>

fun pending :: "'a gen \<Rightarrow> nat" where
  "pending (Yield x g) = Suc (pending g)"
| "pending Return = 0"
| "pending (Raise e) = 0"

definition remaining :: "gen_locals \<Rightarrow> nat" where
  "remaining g = pending (streams g Soprano) + pending (streams g Alto)
               + pending (streams g Tenor) + pending (streams g Bass)"

lemma remaining_upd:
  "streams g voice = Yield x rest \<Longrightarrow>
   remaining (g\<lparr>streams := (streams g)(voice := rest), state := s, counter := c\<rparr>) < remaining g"
  by (cases voice) (simp_all add: remaining_def)

lemma advance_remaining:
  "advance vs g = Inr g' \<Longrightarrow> remaining g' \<le> remaining g \<and> (vs \<noteq> [] \<longrightarrow> remaining g' < remaining g)"
proof (induction vs arbitrary: g)
  case Nil
  then show ?case by simp
next
  case (Cons voice vs)
  then obtain elem dur rest where y: "streams g voice = Yield (elem, dur) rest"
    by (auto split: gen.splits)
  let ?g1 = "g\<lparr>streams := (streams g)(voice := rest),
                state := (state g)(voice := Some (elem, dur)),
                counter := (counter g)(voice := counter g voice + dur)\<rparr>"
  from Cons.prems y have "advance vs ?g1 = Inr g'" by simp
  from Cons.IH [OF this] have "remaining g' \<le> remaining ?g1" by simp
  moreover have "remaining ?g1 < remaining g" using y by (rule remaining_upd)
  ultimately show ?case by simp
qed

lemma min_value_cases:
  "min_value c = c Soprano \<or> min_value c = c Alto \<or> min_value c = c Tenor \<or> min_value c = c Bass"
  by (auto simp: min_value_def min_def)

lemma min_voices_nonempty: "min_voices c \<noteq> []"
proof -
  from min_value_cases [of c] obtain k where "c k = min_value c" by metis
  moreover have "k \<in> set voices" by (cases k) (simp_all add: voices_def)
  ultimately show ?thesis by (auto simp: min_voices_def filter_empty_conv)
qed

text \<open>
  The \<^verbatim>\<open>while True\<close> loop of \<^verbatim>\<open>gen_states\<close>, as the run of the generator. Each item
  yielded is paired here with the locals at the moment of the \<^verbatim>\<open>yield\<close>. An exception in
  the body ends the generator: \<open>StopIteration\<close> leaves it as \<open>RuntimeError\<close>, any other
  exception as itself.
\<close>

function gen_loop :: "gen_locals \<Rightarrow> gen_locals gen" where
  "gen_loop g =
     (case advance (min_voices (counter g)) g of
        Inl e \<Rightarrow> Raise (if e = StopIteration then RuntimeError else e)
      | Inr g' \<Rightarrow> Yield g' (gen_loop g'))"
  by pat_completeness auto
termination
proof (relation "measure remaining")
  show "wf (measure remaining)" by simp
next
  fix g g'
  assume "advance (min_voices (counter g)) g = Inr g'"
  with advance_remaining [of "min_voices (counter g)" g g'] min_voices_nonempty [of "counter g"]
  show "(g', g) \<in> measure remaining" by simp
qed

definition gen_init :: "event gen \<Rightarrow> event gen \<Rightarrow> event gen \<Rightarrow> event gen \<Rightarrow> gen_locals" where
  "gen_init S A T B =
     \<lparr>counter = (\<lambda>k. 0),
      streams = (\<lambda>k. case k of Soprano \<Rightarrow> S | Alto \<Rightarrow> A | Tenor \<Rightarrow> T | Bass \<Rightarrow> B),
      state = (\<lambda>k. None)\<rparr>"

definition emitted :: "gen_locals \<Rightarrow> joint_state" where
  "emitted g = (state g Soprano, state g Alto, state g Tenor, state g Bass)"

definition gen_states :: "event gen \<Rightarrow> event gen \<Rightarrow> event gen \<Rightarrow> event gen \<Rightarrow> joint_state gen" where
  "gen_states S A T B = map_gen emitted (gen_loop (gen_init S A T B))"

declare gen_loop.simps [simp del]

section \<open>The Expander: the loop of \<^verbatim>\<open>make_music\<close>\<close>

text \<open>
  The tokens of a walk are strings, which \<^verbatim>\<open>make_tuple\<close> (\<^verbatim>\<open>ast.literal_eval\<close>, library
  code) parses. What the loop receives is the outcome of that call: an exception for a
  text that is no Python literal, or the value of the literal. The values that matter
  here are \<^verbatim>\<open>None\<close>, strings, numbers and tuples.
\<close>

datatype pyval = PNone | PStr string | PNum rat | PTuple "pyval list"

text \<open>The notes appended to a part: \<^verbatim>\<open>note.Rest(duration=...)\<close> and \<^verbatim>\<open>note.Note(pitch, duration=...)\<close>.\<close>

datatype general_note = Rest rat | Note string rat

text \<open>
  Unpacking assignments \<^verbatim>\<open>a, b = v\<close> and \<^verbatim>\<open>S, A, T, B = v\<close>: the value is iterated (a
  string gives its characters, \<^verbatim>\<open>None\<close> and numbers raise \<open>TypeError\<close>) and the number
  of items must match (\<open>ValueError\<close> otherwise).
\<close>

fun items :: "pyval \<Rightarrow> exc + pyval list" where
  "items (PTuple xs) = Inr xs"
| "items (PStr cs) = Inr (map (\<lambda>c. PStr [c]) cs)"
| "items PNone = Inl TypeError"
| "items (PNum q) = Inl TypeError"

definition unpack2 :: "pyval \<Rightarrow> exc + pyval \<times> pyval" where
  "unpack2 v = (case items v of
                  Inl e \<Rightarrow> Inl e
                | Inr [a, b] \<Rightarrow> Inr (a, b)
                | Inr _ \<Rightarrow> Inl ValueError)"

definition unpack4 :: "pyval \<Rightarrow> exc + pyval \<times> pyval \<times> pyval \<times> pyval" where
  "unpack4 v = (case items v of
                  Inl e \<Rightarrow> Inl e
                | Inr [a, b, c, d] \<Rightarrow> Inr (a, b, c, d)
                | Inr _ \<Rightarrow> Inl ValueError)"

text \<open>
  The constructors of music21 and of \<^verbatim>\<open>decimal\<close> are library code. They are taken to
  accept a string as pitch and a number as duration, and to raise \<open>TypeError\<close> on
  anything else.
\<close>

fun new_note :: "pyval \<Rightarrow> pyval \<Rightarrow> exc + general_note" where
  "new_note (PStr pitch) (PNum d) = Inr (if pitch = ''rest'' then Rest d else Note pitch d)"
| "new_note _ _ = Inl TypeError"

fun Decimal :: "pyval \<Rightarrow> exc + rat" where
  "Decimal (PNum d) = Inr d"
| "Decimal _ = Inl TypeError"

text \<open>The local variables of \<^verbatim>\<open>make_music\<close> that the loop over the walk changes.\<close>

record music_locals =
  walk_counter :: "Voice \<Rightarrow> rat"
  current_state :: "Voice \<Rightarrow> pyval"
  parts :: "Voice \<Rightarrow> general_note list"

definition music_init :: music_locals where
  "music_init = \<lparr>walk_counter = (\<lambda>k. 0), current_state = (\<lambda>k. PNone), parts = (\<lambda>k. [])\<rparr>"

text \<open>The \<^verbatim>\<open>for voice in min_voices\<close> loop of \<^verbatim>\<open>make_music\<close>.\<close>

fun place :: "Voice list \<Rightarrow> music_locals \<Rightarrow> exc + music_locals" where
  "place [] m = Inr m"
| "place (voice # vs) m =
     (case unpack2 (current_state m voice) of
        Inl e \<Rightarrow> Inl e
      | Inr (pitch, d) \<Rightarrow>
          (case new_note pitch d of
             Inl e \<Rightarrow> Inl e
           | Inr n \<Rightarrow>
               (case Decimal d of
                  Inl e \<Rightarrow> Inl e
                | Inr q \<Rightarrow>
                    place vs (m\<lparr>parts := (parts m)(voice := parts m voice @ [n]),
                                walk_counter := (walk_counter m)(voice := walk_counter m voice + q)\<rparr>))))"

text \<open>The body of \<^verbatim>\<open>for state in chain.walk()\<close>, given the outcome of \<^verbatim>\<open>make_tuple(state)\<close>.\<close>

definition walk_step :: "exc + pyval \<Rightarrow> music_locals \<Rightarrow> exc + music_locals" where
  "walk_step tok m =
     (case tok of
        Inl e \<Rightarrow> Inl e
      | Inr v \<Rightarrow>
          (case unpack4 v of
             Inl e \<Rightarrow> Inl e
           | Inr (S, A, T, B) \<Rightarrow>
               (let m1 = m\<lparr>current_state :=
                             (current_state m)(Soprano := S, Alto := A, Tenor := T, Bass := B)\<rparr>
                in place (min_voices (walk_counter m1)) m1)))"

fun walk_loop :: "(exc + pyval) list \<Rightarrow> music_locals \<Rightarrow> exc + music_locals" where
  "walk_loop [] m = Inr m"
| "walk_loop (tok # toks) m =
     (case walk_step tok m of Inl e \<Rightarrow> Inl e | Inr m' \<Rightarrow> walk_loop toks m')"

text \<open>
  \<^verbatim>\<open>make_music\<close>, from the outcomes of \<^verbatim>\<open>make_tuple\<close> on the tokens of the walk to the
  score: the four parts, each inserted at the offset \<^verbatim>\<open>Voice.order\<close> gives its voice.
\<close>

definition make_music :: "(exc + pyval) list \<Rightarrow> exc + (nat \<times> general_note list) list" where
  "make_music walk =
     (case walk_loop walk music_init of
        Inl e \<Rightarrow> Inl e
      | Inr m \<Rightarrow> Inr (map (\<lambda>k. (order k, parts m k)) voices))"

text \<open>A joint state of \<^verbatim>\<open>gen_states\<close> as the Python value it is.\<close>

fun py_event :: "event option \<Rightarrow> pyval" where
  "py_event None = PNone"
| "py_event (Some (elem, q)) = PTuple [PStr elem, PNum q]"

fun py_state :: "joint_state \<Rightarrow> pyval" where
  "py_state (s, a, t, b) = PTuple [py_event s, py_event a, py_event t, py_event b]"

text \<open>The note that \<^verbatim>\<open>make_music\<close> builds from an event.\<close>

fun note_of :: "event \<Rightarrow> general_note" where
  "note_of (pitch, d) = (if pitch = ''rest'' then Rest d else Note pitch d)"

section \<open>The corpus and \<^verbatim>\<open>make_model\<close>\<close>

text \<open>
  The elements that \<^verbatim>\<open>notesAndRests\<close> delivers: a note (with \<^verbatim>\<open>isNote\<close> true, a
  \<^verbatim>\<open>nameWithOctave\<close> and a duration), a rest (whose \<^verbatim>\<open>name\<close> is \<^verbatim>\<open>'rest'\<close>) or a chord (the
  names of its \<^verbatim>\<open>_notes\<close>, and its duration). A chord has no attribute \<^verbatim>\<open>name\<close>: reading
  it raises the \<^verbatim>\<open>AttributeError\<close> that \<^verbatim>\<open>notes_and_durations\<close> catches.
\<close>

datatype element =
    ENote (nameWithOctave: string) (duration: rat)
  | ERest (duration: rat)
  | is_chord: EChord (chord_notes: "string list") (duration: rat)

text \<open>
  What the program reads of a chorale of the corpus: the \<^verbatim>\<open>partName\<close> of each of its parts,
  the \<^verbatim>\<open>ratioString\<close> of the first time signature of the first measure of its first part,
  the \<^verbatim>\<open>mode\<close> of \<^verbatim>\<open>analyze('key')\<close>, and for an id the notes and rests of the part with that
  id (\<^verbatim>\<open>None\<close> when there is no such part).
\<close>

record chorale =
  partNames :: "string list"
  ratioString :: string
  mode :: string
  getElementById :: "string \<Rightarrow> element list option"

text \<open>The strings that class \<^verbatim>\<open>Voice\<close> gives its four voices, and \<^verbatim>\<open>Voice.All\<close>.\<close>

fun voice_name :: "Voice \<Rightarrow> string" where
  "voice_name Soprano = ''Soprano''"
| "voice_name Alto = ''Alto''"
| "voice_name Tenor = ''Tenor''"
| "voice_name Bass = ''Bass''"





text \<open>
  The loop of \<^verbatim>\<open>notes_and_durations\<close> over the elements of a part. For a chord the
  \<^verbatim>\<open>except\<close> branch runs: \<^verbatim>\<open>elem._notes[0]\<close> raises \<open>IndexError\<close> on a chord without notes,
  and otherwise nothing is yielded, the \<^verbatim>\<open>yield\<close> being in the \<^verbatim>\<open>else\<close> branch.
\<close>

fun elements_loop :: "element list \<Rightarrow> event gen" where
  "elements_loop [] = Return"
| "elements_loop (ENote name d # es) = Yield (name, d) (elements_loop es)"
| "elements_loop (ERest d # es) = Yield (''rest'', d) (elements_loop es)"
| "elements_loop (EChord ns d # es) =
     (case ns of [] \<Rightarrow> Raise IndexError | n # _ \<Rightarrow> elements_loop es)"

definition notes_and_durations :: "chorale \<Rightarrow> Voice \<Rightarrow> event gen" where
  "notes_and_durations chorale voice =
     (case getElementById chorale (voice_name voice) of
        None \<Rightarrow> Raise AttributeError
      | Some part \<Rightarrow> elements_loop part)"

text \<open>A list comprehension \<^verbatim>\<open>[f(x) for x in g]\<close> over a generator: it raises what \<open>g\<close> raises.\<close>

fun comprehension :: "('a \<Rightarrow> 'b) \<Rightarrow> 'a gen \<Rightarrow> exc + 'b list" where
  "comprehension f (Yield x g) =
     (case comprehension f g of Inl e \<Rightarrow> Inl e | Inr ys \<Rightarrow> Inr (f x # ys))"
| "comprehension f Return = Inr []"
| "comprehension f (Raise e) = Inl e"




text \<open>A chorale with the four parts named after the voices, for examples.\<close>

definition piece ::
  "string \<Rightarrow> element list \<Rightarrow> element list \<Rightarrow> element list \<Rightarrow> element list \<Rightarrow> chorale" where
  "piece signature S A T B =
     \<lparr>partNames = [''Soprano'', ''Alto'', ''Tenor'', ''Bass''],
      ratioString = signature,
      mode = ''major'',
      getElementById = map_of [(''Soprano'', S), (''Alto'', A), (''Tenor'', T), (''Bass'', B)]\<rparr>"

section \<open>Observations on a run of the Synchronizer\<close>


text \<open>The total duration of a list of events.\<close>

definition total :: "event list \<Rightarrow> rat" where
  "total xs = sum_list (map snd xs)"


section \<open>One step of the Synchronizer and of the Expander\<close>

lemma voices_distinct: "distinct voices"
  by (simp add: voices_def)

lemma min_voices_distinct: "distinct (min_voices c)"
  by (simp add: min_voices_def voices_distinct)

lemma min_voices_set: "k \<in> set (min_voices c) \<longleftrightarrow> c k = min_value c"
  by (cases k) (auto simp: min_voices_def voices_def)






section \<open>The Expander replays the Synchronizer\<close>





















section \<open>The example of four short voices\<close>

text \<open>
  C5: for Soprano = C4 (1), D4 (1), Alto = E4 (2), Tenor = G3 (2), Bass = C3 (2),
  \<^verbatim>\<open>gen_states\<close> yields exactly two joint states. The first holds the first event of
  every voice (all four voices are behind at the start) and leaves the counters 1, 2, 2, 2;
  then Soprano alone is behind, and the second joint state holds its second event and
  leaves the counters 2, 2, 2, 2. The loop of \<^verbatim>\<open>make_music\<close> on these two joint states
  builds the four input lists again.
\<close>

theorem example_scenario:
  "yields (gen_states (iter [(''C4'', 1), (''D4'', 1)]) (iter [(''E4'', 2)]) (iter [(''G3'', 2)])
                      (iter [(''C3'', 2)]))
     = [(Some (''C4'', 1), Some (''E4'', 2), Some (''G3'', 2), Some (''C3'', 2)),
        (Some (''D4'', 1), Some (''E4'', 2), Some (''G3'', 2), Some (''C3'', 2))]
   \<and> map (\<lambda>g. map (counter g) voices)
         (yields (gen_loop (gen_init (iter [(''C4'', 1), (''D4'', 1)]) (iter [(''E4'', 2)])
                                     (iter [(''G3'', 2)]) (iter [(''C3'', 2)]))))
     = [[1, 2, 2, 2], [2, 2, 2, 2]]
   \<and> map (\<lambda>g. min_voices (counter g))
         (gen_init (iter [(''C4'', 1), (''D4'', 1)]) (iter [(''E4'', 2)]) (iter [(''G3'', 2)])
                   (iter [(''C3'', 2)])
          # yields (gen_loop (gen_init (iter [(''C4'', 1), (''D4'', 1)]) (iter [(''E4'', 2)])
                                       (iter [(''G3'', 2)]) (iter [(''C3'', 2)]))))
     = [[Soprano, Alto, Tenor, Bass], [Soprano], [Soprano, Alto, Tenor, Bass]]
   \<and> make_music (map (\<lambda>j. Inr (py_state j))
         (yields (gen_states (iter [(''C4'', 1), (''D4'', 1)]) (iter [(''E4'', 2)])
                             (iter [(''G3'', 2)]) (iter [(''C3'', 2)]))))
     = Inr [(1, map note_of [(''C4'', 1), (''D4'', 1)]), (2, map note_of [(''E4'', 2)]),
            (3, map note_of [(''G3'', 2)]), (4, map note_of [(''C3'', 2)])]
   \<and> map note_of [(''C4'', 1), (''D4'', 1)] = [Note ''C4'' 1, Note ''D4'' 1]"
  by code_simp

section \<open>What the Expander appends\<close>

lemma place_step_cases:
  assumes "place (voice # vs) m = Inr m'"
  obtains pitch d where "current_state m voice = PTuple [PStr pitch, PNum d]"
    and "place vs (m\<lparr>parts := (parts m)(voice := parts m voice @ [note_of (pitch, d)]),
                     walk_counter := (walk_counter m)(voice := walk_counter m voice + d)\<rparr>) = Inr m'"
proof -
  from assms obtain a b where u: "unpack2 (current_state m voice) = Inr (a, b)"
    by (auto split: sum.splits)
  with assms obtain n where n: "new_note a b = Inr n" by (auto split: sum.splits)
  then obtain pitch d where ab: "a = PStr pitch" "b = PNum d" and nn: "n = note_of (pitch, d)"
    by (cases "(a, b)" rule: new_note.cases) auto
  from u ab have cs: "current_state m voice = PTuple [PStr pitch, PNum d]"
    by (cases "current_state m voice")
       (auto simp: unpack2_def split: list.splits)
  from assms u n ab nn have
    "place vs (m\<lparr>parts := (parts m)(voice := parts m voice @ [note_of (pitch, d)]),
                  walk_counter := (walk_counter m)(voice := walk_counter m voice + d)\<rparr>) = Inr m'"
    by simp
  with cs show ?thesis by (rule that)
qed

lemma place_other:
  "place vs m = Inr m' \<Longrightarrow>
   current_state m' = current_state m
   \<and> (k \<notin> set vs \<longrightarrow> parts m' k = parts m k \<and> walk_counter m' k = walk_counter m k)"
proof (induction vs arbitrary: m)
  case Nil
  then show ?case by simp
next
  case (Cons voice vs)
  from Cons.prems obtain pitch d where
    p: "place vs (m\<lparr>parts := (parts m)(voice := parts m voice @ [note_of (pitch, d)]),
                     walk_counter := (walk_counter m)(voice := walk_counter m voice + d)\<rparr>) = Inr m'"
    by (rule place_step_cases)
  from Cons.IH [OF p] show ?case by simp
qed

lemma place_placed:
  "place vs m = Inr m' \<Longrightarrow> distinct vs \<Longrightarrow> k \<in> set vs \<Longrightarrow>
   \<exists>pitch d. current_state m k = PTuple [PStr pitch, PNum d]
     \<and> parts m' k = parts m k @ [note_of (pitch, d)]
     \<and> walk_counter m' k = walk_counter m k + d"
proof (induction vs arbitrary: m)
  case Nil
  then show ?case by simp
next
  case (Cons voice vs)
  from Cons.prems(1) obtain pitch d where
    cs: "current_state m voice = PTuple [PStr pitch, PNum d]" and
    p: "place vs (m\<lparr>parts := (parts m)(voice := parts m voice @ [note_of (pitch, d)]),
                     walk_counter := (walk_counter m)(voice := walk_counter m voice + d)\<rparr>) = Inr m'"
    by (rule place_step_cases)
  from Cons.prems have d: "distinct vs" and nv: "voice \<notin> set vs" by auto
  show ?case
  proof (cases "k = voice")
    case True
    with place_other [OF p, of voice] nv cs show ?thesis by simp
  next
    case False
    with Cons.prems have "k \<in> set vs" by simp
    from Cons.IH [OF p d this] False show ?thesis by simp
  qed
qed

lemma walk_step_cases:
  assumes "walk_step tok m = Inr m'"
  obtains v S A T B where "tok = Inr v" and "unpack4 v = Inr (S, A, T, B)"
    and "place (min_voices (walk_counter m))
           (m\<lparr>current_state := (current_state m)(Soprano := S, Alto := A, Tenor := T, Bass := B)\<rparr>)
         = Inr m'"
proof (cases tok)
  case (Inl e)
  with assms show ?thesis by (simp add: walk_step_def)
next
  case (Inr v)
  with assms obtain S A T B where u: "unpack4 v = Inr (S, A, T, B)"
    by (cases "unpack4 v") (auto simp: walk_step_def)
  with assms Inr have "place (min_voices (walk_counter m))
           (m\<lparr>current_state := (current_state m)(Soprano := S, Alto := A, Tenor := T, Bass := B)\<rparr>)
         = Inr m'"
    by (simp add: walk_step_def Let_def)
  with Inr u show ?thesis by (rule that)
qed

text \<open>
  C6: at a joint state that the loop of \<^verbatim>\<open>make_music\<close> accepts, a voice whose counter is not
  the minimum keeps its part and its counter, although the joint state holds an entry for
  it; a voice whose counter is the minimum gets exactly one note appended, the one built
  from its entry, and its counter grows by that entry's duration.
\<close>

theorem held_over_not_reemitted:
  assumes "walk_step tok m = Inr m'"
  shows "(\<forall>k. walk_counter m k \<noteq> min_value (walk_counter m) \<longrightarrow>
            parts m' k = parts m k \<and> walk_counter m' k = walk_counter m k)
       \<and> (\<forall>k. walk_counter m k = min_value (walk_counter m) \<longrightarrow>
            (\<exists>pitch d. current_state m' k = PTuple [PStr pitch, PNum d]
               \<and> parts m' k = parts m k @ [note_of (pitch, d)]
               \<and> walk_counter m' k = walk_counter m k + d))"
proof -
  from assms obtain v S A T B where
    p: "place (min_voices (walk_counter m))
           (m\<lparr>current_state := (current_state m)(Soprano := S, Alto := A, Tenor := T, Bass := B)\<rparr>)
         = Inr m'" by (rule walk_step_cases)
  let ?m1 = "m\<lparr>current_state := (current_state m)(Soprano := S, Alto := A, Tenor := T, Bass := B)\<rparr>"
  have cs: "current_state m' = current_state ?m1" using place_other [OF p] by simp
  have "parts m' k = parts m k \<and> walk_counter m' k = walk_counter m k"
    if "walk_counter m k \<noteq> min_value (walk_counter m)" for k
  proof -
    from that have "k \<notin> set (min_voices (walk_counter m))" by (simp add: min_voices_set)
    with place_other [OF p, of k] show ?thesis by simp
  qed
  moreover have "\<exists>pitch d. current_state m' k = PTuple [PStr pitch, PNum d]
               \<and> parts m' k = parts m k @ [note_of (pitch, d)]
               \<and> walk_counter m' k = walk_counter m k + d"
    if "walk_counter m k = min_value (walk_counter m)" for k
  proof -
    from that have "k \<in> set (min_voices (walk_counter m))" by (simp add: min_voices_set)
    from place_placed [OF p min_voices_distinct this] cs show ?thesis by simp
  qed
  ultimately show ?thesis by blast
qed

theorem held_over_not_reemitted_witness:
  "case walk_step (Inr (PTuple [PTuple [PStr ''D4'', PNum 1], PTuple [PStr ''E4'', PNum 2],
                               PTuple [PStr ''G3'', PNum 2], PTuple [PStr ''C3'', PNum 2]]))
        \<lparr>walk_counter = (\<lambda>k. if k = Soprano then 1 else 2),
         current_state = (\<lambda>k. PNone),
         parts = (\<lambda>k. if k = Soprano then [Note ''C4'' 1] else if k = Alto then [Note ''E4'' 2]
                       else if k = Tenor then [Note ''G3'' 2] else [Note ''C3'' 2])\<rparr> of
     Inl e \<Rightarrow> False
   | Inr m' \<Rightarrow> parts m' Alto = [Note ''E4'' 2] \<and> walk_counter m' Alto = 2
       \<and> parts m' Soprano = [Note ''C4'' 1, Note ''D4'' 1] \<and> walk_counter m' Soprano = 2"
proof -
  let ?tok = "Inr (PTuple [PTuple [PStr ''D4'', PNum 1], PTuple [PStr ''E4'', PNum 2],
                               PTuple [PStr ''G3'', PNum 2], PTuple [PStr ''C3'', PNum 2]])"
  let ?m = "\<lparr>walk_counter = (\<lambda>k. if k = Soprano then 1 else (2::rat)),
         current_state = (\<lambda>k. PNone),
         parts = (\<lambda>k. if k = Soprano then [Note ''C4'' 1] else if k = Alto then [Note ''E4'' 2]
                       else if k = Tenor then [Note ''G3'' 2] else [Note ''C3'' 2])\<rparr>"
  have mv: "min_value (walk_counter ?m) = 1" by (simp add: min_value_def)
  have "\<exists>m'. walk_step ?tok ?m = Inr m'"
    by (simp add: walk_step_def unpack4_def unpack2_def min_voices_def min_value_def voices_def Let_def)
  then obtain m' where s: "walk_step ?tok ?m = Inr m'" ..
  note h = held_over_not_reemitted [OF s]
  have na: "walk_counter ?m Alto \<noteq> min_value (walk_counter ?m)" using mv by simp
  have ns: "walk_counter ?m Soprano = min_value (walk_counter ?m)" using mv by simp
  from h [THEN conjunct1, rule_format, OF na]
  have a: "parts m' Alto = [Note ''E4'' 2] \<and> walk_counter m' Alto = 2" by simp
  from h [THEN conjunct2, rule_format, OF ns] obtain pitch d where
    b: "current_state m' Soprano = PTuple [PStr pitch, PNum d]"
       "parts m' Soprano = parts ?m Soprano @ [note_of (pitch, d)]"
       "walk_counter m' Soprano = walk_counter ?m Soprano + d" by blast
  from s have "current_state m' Soprano = PTuple [PStr ''D4'', PNum 1]"
    by (auto simp: walk_step_def unpack4_def unpack2_def min_voices_def min_value_def voices_def Let_def)
  with b(1) have pd: "pitch = ''D4''" "d = 1" by simp_all
  from b(2,3) have "parts m' Soprano = [Note ''C4'' 1, Note ''D4'' 1] \<and> walk_counter m' Soprano = 2"
    unfolding pd by simp
  with a s show ?thesis by simp
qed

section \<open>Exhausted streams and \<^verbatim>\<open>make_model\<close>\<close>




lemma comprehension_returns: "outcome g = None \<Longrightarrow> comprehension f g = Inr (map f (yields g))"
  by (induction g) simp_all

















section \<open>Decoding the tokens of a walk\<close>






section \<open>Chords in \<^verbatim>\<open>notes_and_durations\<close>\<close>

lemma elements_loop_no_chords:
  "\<forall>e \<in> set part. is_chord e \<longrightarrow> chord_notes e \<noteq> [] \<Longrightarrow>
   elements_loop part = elements_loop (filter (\<lambda>e. \<not> is_chord e) part)"
  by (induction part rule: elements_loop.induct) (auto split: list.splits)

lemma elements_loop_durations:
  "map snd (yields (elements_loop part))
     = map duration (filter (\<lambda>e. \<not> is_chord e)
                       (takeWhile (\<lambda>e. \<not> (is_chord e \<and> chord_notes e = [])) part))"
  by (induction part rule: elements_loop.induct) (auto split: list.splits)

lemma durations_nonneg: "\<forall>e \<in> set es. 0 < duration e \<Longrightarrow> 0 \<le> sum_list (map duration es)"
  by (induction es) (auto intro: add_nonneg_nonneg less_imp_le)

lemma elements_loop_le:
  "\<forall>e \<in> set part. 0 < duration e \<Longrightarrow>
   total (yields (elements_loop part)) \<le> sum_list (map duration part)"
proof (induction part rule: elements_loop.induct)
  case (4 ns d es)
  from "4.prems" have p: "\<forall>e \<in> set es. 0 < duration e" and d: "0 < d" by simp_all
  show ?case
  proof (cases ns)
    case Nil
    with durations_nonneg [OF p] d show ?thesis by (simp add: total_def)
  next
    case (Cons n ns')
    from "4.IH" [OF Cons p] d Cons show ?thesis by simp
  qed
qed (simp_all add: total_def)

lemma elements_loop_less:
  "\<forall>e \<in> set part. 0 < duration e \<Longrightarrow> \<exists>e \<in> set part. is_chord e \<Longrightarrow>
   total (yields (elements_loop part)) < sum_list (map duration part)"
proof (induction part rule: elements_loop.induct)
  case 1
  then show ?case by simp
next
  case (2 name d es)
  then show ?case by (simp add: total_def)
next
  case (3 d es)
  then show ?case by (simp add: total_def)
next
  case (4 ns d es)
  from "4.prems" have p: "\<forall>e \<in> set es. 0 < duration e" and d: "0 < d" by simp_all
  from elements_loop_le [OF p] have le: "total (yields (elements_loop es)) \<le> sum_list (map duration es)" .
  from durations_nonneg [OF p] le d show ?case by (cases ns) (simp_all add: total_def)
qed


text \<open>
  C10: \<^verbatim>\<open>notes_and_durations\<close> yields nothing for a chord. The durations it yields are
  those of the notes and rests of the part, up to the first chord without notes (where it
  raises); when every chord has a note, its run is that of the part without its chords;
  and when the durations are positive and the part holds a chord, the durations yielded
  add up to less than the durations of the part.
\<close>

theorem chords_are_dropped:
  assumes "getElementById chorale (voice_name voice) = Some part"
  shows "map snd (yields (notes_and_durations chorale voice))
           = map duration (filter (\<lambda>e. \<not> is_chord e)
                             (takeWhile (\<lambda>e. \<not> (is_chord e \<and> chord_notes e = [])) part))
       \<and> ((\<forall>e \<in> set part. is_chord e \<longrightarrow> chord_notes e \<noteq> []) \<longrightarrow>
            notes_and_durations chorale voice = elements_loop (filter (\<lambda>e. \<not> is_chord e) part))
       \<and> ((\<forall>e \<in> set part. 0 < duration e) \<and> (\<exists>e \<in> set part. is_chord e) \<longrightarrow>
            total (yields (notes_and_durations chorale voice)) < sum_list (map duration part))"
  using assms elements_loop_durations [of part] elements_loop_no_chords [of part]
    elements_loop_less [of part]
  by (simp add: notes_and_durations_def)

theorem chords_are_dropped_witness:
  "getElementById (piece ''4/4'' [ENote ''C4'' 1, EChord [''E4'', ''G4''] 1, ERest 2] [] [] [])
                  (voice_name Soprano)
     = Some [ENote ''C4'' 1, EChord [''E4'', ''G4''] 1, ERest 2]
   \<and> notes_and_durations (piece ''4/4'' [ENote ''C4'' 1, EChord [''E4'', ''G4''] 1, ERest 2] [] [] [])
                          Soprano
     = Yield (''C4'', 1) (Yield (''rest'', 2) Return)
   \<and> total (yields (notes_and_durations
               (piece ''4/4'' [ENote ''C4'' 1, EChord [''E4'', ''G4''] 1, ERest 2] [] [] []) Soprano))
     < sum_list (map duration [ENote ''C4'' 1, EChord [''E4'', ''G4''] 1, ERest 2])"
proof -
  let ?part = "[ENote ''C4'' 1, EChord [''E4'', ''G4''] 1, ERest 2]"
  let ?c = "piece ''4/4'' ?part [] [] []"
  have g: "getElementById ?c (voice_name Soprano) = Some ?part" by (simp add: piece_def)
  note t = chords_are_dropped [OF g]
  have "\<forall>e \<in> set ?part. is_chord e \<longrightarrow> chord_notes e \<noteq> []" by simp
  with t have "notes_and_durations ?c Soprano = elements_loop (filter (\<lambda>e. \<not> is_chord e) ?part)"
    by blast
  then have a: "notes_and_durations ?c Soprano = Yield (''C4'', 1) (Yield (''rest'', 2) Return)"
    by simp
  have "(\<forall>e \<in> set ?part. 0 < duration e) \<and> (\<exists>e \<in> set ?part. is_chord e)" by simp
  with t have "total (yields (notes_and_durations ?c Soprano)) < sum_list (map duration ?part)"
    by blast
  with g a show ?thesis by blast
qed


end
